theory Spec2Isabelle
  imports Main
begin

section \<open>Python values, exceptions and string operations\<close>

text \<open>
  The chunker of \<^verbatim>\<open>src/backend/chunker.py\<close> works on subtitle lines that are Python
  strings, except where the scraper could not fetch a transcript: then the line is a
  float not-a-number or \<^verbatim>\<open>None\<close>. A line is therefore a \<open>pyval\<close>. Strings are lists of
  8-bit characters, read as the code points 0 to 255.
\<close>

datatype py_error =
  AttributeError | ValueError | IndexError | TypeError | KeyError
  | NotImplementedError | AssertionError

datatype pyval = PStr string | PNone | PNaN

text \<open>A table cell: a value or numpy's not-a-number.\<close>

datatype 'a cell = Val 'a | NaN

text \<open>
  The characters \<^verbatim>\<open>str.split()\<close> and \<^verbatim>\<open>str.strip()\<close> treat as whitespace, among the
  code points below 256: tab to carriage return, the four separators 28 to 31, the space,
  next-line (133) and the no-break space (160).
\<close>

definition is_space :: "char \<Rightarrow> bool" where
  "is_space c \<longleftrightarrow> (of_char c :: nat) \<in> set [9, 10, 11, 12, 13, 28, 29, 30, 31, 32, 133, 160]"

text \<open>
  \<^verbatim>\<open>s.split()\<close>: the maximal runs of non-whitespace characters. \<open>split_acc w s\<close> scans
  \<open>s\<close> with the current word \<open>w\<close> (reversed) in hand.
\<close>

fun split_acc :: "string \<Rightarrow> string \<Rightarrow> string list" where
  "split_acc w [] = (if w = [] then [] else [rev w])"
| "split_acc w (c # cs) =
     (if is_space c then (if w = [] then split_acc [] cs else rev w # split_acc [] cs)
      else split_acc (c # w) cs)"

definition py_split :: "string \<Rightarrow> string list" where
  "py_split s = split_acc [] s"

text \<open>\<^verbatim>\<open>s.strip()\<close>: whitespace removed at both ends.\<close>

definition py_strip :: "string \<Rightarrow> string" where
  "py_strip s = rev (dropWhile is_space (rev (dropWhile is_space s)))"

text \<open>\<^verbatim>\<open>sep.join(xs)\<close> on strings.\<close>

fun join_str :: "string \<Rightarrow> string list \<Rightarrow> string" where
  "join_str sep [] = []"
| "join_str sep [x] = x"
| "join_str sep (x # y # ys) = x @ sep @ join_str sep (y # ys)"

text \<open>
  The three string operations of the chunker on a line of any type. A value that is not a
  string has neither \<^verbatim>\<open>strip\<close> nor \<^verbatim>\<open>split\<close> (AttributeError), and \<^verbatim>\<open>" ".join\<close>
  refuses it (TypeError).
\<close>

fun strip_split_len :: "pyval \<Rightarrow> py_error + int" where
  "strip_split_len (PStr s) = Inr (int (length (py_split (py_strip s))))"
| "strip_split_len v = Inl AttributeError"

fun split_len :: "pyval \<Rightarrow> py_error + int" where
  "split_len (PStr s) = Inr (int (length (py_split s)))"
| "split_len v = Inl AttributeError"

fun as_str :: "pyval \<Rightarrow> py_error + string" where
  "as_str (PStr s) = Inr s"
| "as_str v = Inl TypeError"

text \<open>A comprehension whose element expression may raise: the first error wins.\<close>

fun map_raise :: "('a \<Rightarrow> py_error + 'b) \<Rightarrow> 'a list \<Rightarrow> py_error + 'b list" where
  "map_raise f [] = Inr []"
| "map_raise f (x # xs) =
     (case f x of Inl e \<Rightarrow> Inl e
      | Inr y \<Rightarrow> (case map_raise f xs of Inl e \<Rightarrow> Inl e | Inr ys \<Rightarrow> Inr (y # ys)))"

definition py_join :: "pyval list \<Rightarrow> py_error + string" where
  "py_join blk =
     (case map_raise as_str blk of Inl e \<Rightarrow> Inl e | Inr ss \<Rightarrow> Inr (join_str '' '' ss))"

definition sum_split_len :: "pyval list \<Rightarrow> py_error + int" where
  "sum_split_len blk =
     (case map_raise split_len blk of Inl e \<Rightarrow> Inl e | Inr ns \<Rightarrow> Inr (sum_list ns))"

text \<open>\<^verbatim>\<open>xs.index(x)\<close>: the first position holding a value equal to \<open>x\<close>.\<close>

fun py_index :: "'a \<Rightarrow> 'a list \<Rightarrow> py_error + nat" where
  "py_index x [] = Inl ValueError"
| "py_index x (y # ys) =
     (if x = y then Inr 0
      else (case py_index x ys of Inl e \<Rightarrow> Inl e | Inr i \<Rightarrow> Inr (Suc i)))"

text \<open>\<^verbatim>\<open>xs[i]\<close> for an index that is not negative, and \<^verbatim>\<open>xs[-1]\<close>.\<close>

definition py_get :: "'a list \<Rightarrow> nat \<Rightarrow> py_error + 'a" where
  "py_get xs i = (if i < length xs then Inr (xs ! i) else Inl IndexError)"

definition py_last :: "'a list \<Rightarrow> py_error + 'a" where
  "py_last xs = (if xs = [] then Inl IndexError else Inr (last xs))"

text \<open>
  \<^verbatim>\<open>start_times, end_times = zip(*timestamps)\<close> on a list of pairs: the unpacking finds
  nothing to unpack when the list is empty.
\<close>

definition unzip_timestamps :: "('t \<times> 't) list \<Rightarrow> py_error + ('t list \<times> 't list)" where
  "unzip_timestamps timestamps =
     (if timestamps = [] then Inl ValueError
      else Inr (map fst timestamps, map snd timestamps))"

section \<open>The chunker\<close>

datatype strategy = Length | Time

record chunker =
  chunk_by :: strategy
  expected_threshold :: int
  min_tolerable_threshold :: int

definition default_values :: "strategy \<Rightarrow> int \<times> int" where
  "default_values s = (case s of Length \<Rightarrow> (225, 150) | Time \<Rightarrow> (60, 45))"

text \<open>
  \<^verbatim>\<open>Chunker.__init__\<close>: the assertion on the strategy name, then each threshold from the
  keyword arguments or from the defaults of the strategy.
\<close>

definition Chunker_init :: "string \<Rightarrow> int option \<Rightarrow> int option \<Rightarrow> py_error + chunker" where
  "Chunker_init name expected min_tolerable =
     (if name = ''time'' \<or> name = ''length'' then
        (let s = (if name = ''length'' then Length else Time) in
         Inr \<lparr>chunk_by = s,
              expected_threshold =
                (case expected of Some v \<Rightarrow> v | None \<Rightarrow> fst (default_values s)),
              min_tolerable_threshold =
                (case min_tolerable of Some v \<Rightarrow> v | None \<Rightarrow> snd (default_values s))\<rparr>)
      else Inl AssertionError)"

text \<open>The dictionary that \<^verbatim>\<open>pack\<close> builds: one row of the output table.\<close>

record 't chunk =
  videoId :: string
  block :: "string cell"
  length_of_block :: "int cell"
  start_time :: "'t cell"
  end_time :: "'t cell"

definition degenerate :: "string \<Rightarrow> 't chunk" where
  "degenerate video_id =
     \<lparr>videoId = video_id, block = NaN, length_of_block = NaN, start_time = NaN,
      end_time = NaN\<rparr>"

text \<open>The dictionary \<^verbatim>\<open>state\<close> of the generator.\<close>

record state =
  state_block :: "pyval list"
  state_length_of_block :: int
  covered_length :: int

definition init_state :: state where
  "init_state = \<lparr>state_block = [], state_length_of_block = 0, covered_length = 0\<rparr>"

text \<open>
  The arguments of a \<^verbatim>\<open>pack\<close> call, evaluated in the order they are written: the joined
  text, the word count of the block, the start time found through the position of the
  block's first line in \<^verbatim>\<open>subtitles\<close>, and the end time, which the caller passes as
  the result of its own indexing.
\<close>

definition pack ::
  "string \<Rightarrow> pyval list \<Rightarrow> pyval list \<Rightarrow> 't list \<Rightarrow> py_error + 't \<Rightarrow> py_error + 't chunk" where
  "pack video_id blk subtitles start_times end_t =
     (case py_join blk of Inl e \<Rightarrow> Inl e
      | Inr text \<Rightarrow>
     (case sum_split_len blk of Inl e \<Rightarrow> Inl e
      | Inr n \<Rightarrow>
     (case py_get blk 0 of Inl e \<Rightarrow> Inl e
      | Inr first \<Rightarrow>
     (case py_index first subtitles of Inl e \<Rightarrow> Inl e
      | Inr i \<Rightarrow>
     (case py_get start_times i of Inl e \<Rightarrow> Inl e
      | Inr st \<Rightarrow>
     (case end_t of Inl e \<Rightarrow> Inl e
      | Inr et \<Rightarrow>
        Inr \<lparr>videoId = video_id, block = Val text, length_of_block = Val n,
             start_time = Val st, end_time = Val et\<rparr>))))))"

text \<open>
  What the generator yields, tagged with the \<^verbatim>\<open>yield\<close> statement it comes from: the
  close branch and the tail-merge branch carry the loop index and the dictionary
  \<^verbatim>\<open>state\<close> as it is at that moment, the \<^verbatim>\<open>except\<close> branch only its record.
\<close>

datatype 't yielded =
  Close nat state "'t chunk"
  | TailMerge nat state "'t chunk"
  | Fallback "'t chunk"

fun record_of :: "'t yielded \<Rightarrow> 't chunk" where
  "record_of (Close i st c) = c"
| "record_of (TailMerge i st c) = c"
| "record_of (Fallback c) = c"

text \<open>
  The \<^verbatim>\<open>for idx, subtitle in enumerate(subtitles)\<close> loop. The result is what was
  yielded and the exception that ended the loop, if any.
\<close>

fun for_loop ::
  "chunker \<Rightarrow> string \<Rightarrow> pyval list \<Rightarrow> 't list \<Rightarrow> 't list \<Rightarrow> int \<Rightarrow> nat \<Rightarrow> pyval list \<Rightarrow> state
   \<Rightarrow> 't yielded list \<times> py_error option" where
  "for_loop C video_id subtitles start_times end_times total_length idx [] st = ([], None)"
| "for_loop C video_id subtitles start_times end_times total_length idx (subtitle # rest) st =
     (case strip_split_len subtitle of
        Inl e \<Rightarrow> ([], Some e)
      | Inr n \<Rightarrow>
          (let blk = state_block st @ [subtitle];
               len = state_length_of_block st + n;
               cov = covered_length st + n
           in
           if len \<ge> expected_threshold C \<and> total_length - cov \<ge> min_tolerable_threshold C
           then
             (case pack video_id blk subtitles start_times (py_get end_times idx) of
                Inl e \<Rightarrow> ([], Some e)
              | Inr c \<Rightarrow>
                  (case for_loop C video_id subtitles start_times end_times total_length
                          (Suc idx) rest
                          \<lparr>state_block = [], state_length_of_block = 0, covered_length = cov\<rparr>
                   of (ys, r) \<Rightarrow>
                     (Close idx
                        \<lparr>state_block = blk, state_length_of_block = len, covered_length = cov\<rparr>
                        c # ys, r)))
           else if total_length - cov \<le> min_tolerable_threshold C
           then
             (let blk' = blk @ drop idx subtitles in
              case pack video_id blk' subtitles start_times (py_last end_times) of
                Inl e \<Rightarrow> ([], Some e)
              | Inr c \<Rightarrow>
                  ([TailMerge idx
                      \<lparr>state_block = blk', state_length_of_block = len, covered_length = cov\<rparr>
                      c], None))
           else
             for_loop C video_id subtitles start_times end_times total_length
               (Suc idx) rest
               \<lparr>state_block = blk, state_length_of_block = len, covered_length = cov\<rparr>))"

text \<open>The body of the \<^verbatim>\<open>try\<close>: the total word count, the unpacking, the loop.\<close>

definition try_body ::
  "chunker \<Rightarrow> string \<Rightarrow> pyval list \<Rightarrow> ('t \<times> 't) list \<Rightarrow> 't yielded list \<times> py_error option" where
  "try_body C video_id subtitles timestamps =
     (case map_raise strip_split_len subtitles of
        Inl e \<Rightarrow> ([], Some e)
      | Inr ns \<Rightarrow>
          (case unzip_timestamps timestamps of
             Inl e \<Rightarrow> ([], Some e)
           | Inr (start_times, end_times) \<Rightarrow>
               for_loop C video_id subtitles start_times end_times (sum_list ns) 0
                 subtitles init_state))"

text \<open>
  \<^verbatim>\<open>_chunk_by_length\<close> with its \<^verbatim>\<open>except AttributeError\<close>: an AttributeError ends the
  body and the handler yields the degenerate record after whatever was yielded
  before; any other exception leaves the generator.
\<close>

definition chunk_by_length_yields ::
  "chunker \<Rightarrow> string \<Rightarrow> pyval list \<Rightarrow> ('t \<times> 't) list \<Rightarrow> 't yielded list \<times> py_error option" where
  "chunk_by_length_yields C video_id subtitles timestamps =
     (case try_body C video_id subtitles timestamps of
        (ys, r) \<Rightarrow>
          if r = Some AttributeError then (ys @ [Fallback (degenerate video_id)], None)
          else (ys, r))"

definition chunk_by_length ::
  "chunker \<Rightarrow> string \<Rightarrow> pyval list \<Rightarrow> ('t \<times> 't) list \<Rightarrow> 't chunk list \<times> py_error option" where
  "chunk_by_length C video_id subtitles timestamps =
     (case chunk_by_length_yields C video_id subtitles timestamps of
        (ys, r) \<Rightarrow> (map record_of ys, r))"

text \<open>\<^verbatim>\<open>_chunk_by_time\<close> is not a generator: the call itself raises.\<close>

definition chunk_by_time ::
  "chunker \<Rightarrow> string \<Rightarrow> pyval list \<Rightarrow> ('t \<times> 't) list \<Rightarrow> py_error + ('t chunk list \<times> py_error option)" where
  "chunk_by_time C video_id subtitles timestamps = Inl NotImplementedError"

section \<open>The batch chunker\<close>

text \<open>
  A row of \<^verbatim>\<open>scrapped_df\<close>: the video id of the index, the subtitles and the
  timestamps.
\<close>

type_synonym 't item = "string \<times> pyval list \<times> ('t \<times> 't) list"

text \<open>
  \<^verbatim>\<open>list(blocks)\<close> runs a generator to its end: the records it yielded, unless an
  exception left it.
\<close>

definition consume :: "'a list \<times> py_error option \<Rightarrow> py_error + 'a list" where
  "consume g = (case snd g of None \<Rightarrow> Inr (fst g) | Some e \<Rightarrow> Inl e)"

text \<open>
  The \<^verbatim>\<open>getattr\<close> dispatch on \<^verbatim>\<open>chunk_by\<close> followed by \<^verbatim>\<open>list\<close>, for one item.
\<close>

definition run_strategy :: "chunker \<Rightarrow> 't item \<Rightarrow> py_error + 't chunk list" where
  "run_strategy C item =
     (case item of (video_id, subtitles, timestamps) \<Rightarrow>
        (case chunk_by C of
           Length \<Rightarrow> consume (chunk_by_length C video_id subtitles timestamps)
         | Time \<Rightarrow>
             (case chunk_by_time C video_id subtitles timestamps of
                Inl e \<Rightarrow> Inl e
              | Inr g \<Rightarrow> consume g)))"

text \<open>
  A data frame is the list of its rows, each with its index label. \<^verbatim>\<open>pd.DataFrame\<close>
  of a list of dictionaries labels the rows 0, 1, 2, ...; a frame made from no row has
  no column either.
\<close>

type_synonym 't frame = "(nat \<times> 't chunk) list"

definition make_df :: "'t chunk list \<Rightarrow> 't frame" where
  "make_df blocks = zip [0 ..< length blocks] blocks"

text \<open>
  \<^verbatim>\<open>pd.concat\<close> of a list of frames keeps the rows and their labels in order, and
  refuses an empty list of frames.
\<close>

definition pd_concat :: "'t frame list \<Rightarrow> py_error + 't frame" where
  "pd_concat frames = (if frames = [] then Inl ValueError else Inr (concat frames))"

text \<open>
  \<^verbatim>\<open>index_df\<close>: the labels become the column \<^verbatim>\<open>block_number\<close>, and the frame is
  keyed by the columns \<^verbatim>\<open>videoId\<close> and \<^verbatim>\<open>block_number\<close>. A frame without rows has
  no column \<^verbatim>\<open>videoId\<close> to key on.
\<close>

type_synonym 't table = "((string \<times> nat) \<times> 't chunk) list"

definition index_df :: "'t frame \<Rightarrow> py_error + 't table" where
  "index_df df =
     (if df = [] then Inl KeyError
      else Inr (map (\<lambda>(block_number, row). ((videoId row, block_number), row)) df))"

definition get_chunks :: "chunker \<Rightarrow> 't item list \<Rightarrow> py_error + 't table" where
  "get_chunks C scrapped_df =
     (case map_raise (\<lambda>item. map_sum id make_df (run_strategy C item)) scrapped_df of
        Inl e \<Rightarrow> Inl e
      | Inr frames \<Rightarrow>
          (case pd_concat frames of Inl e \<Rightarrow> Inl e | Inr df \<Rightarrow> index_df df))"

section \<open>Notions of the specification\<close>

text \<open>A line that can be treated as text.\<close>

fun is_text :: "pyval \<Rightarrow> bool" where
  "is_text (PStr s) = True"
| "is_text v = False"

text \<open>The lines that contribute to a yielded record, and to a whole run.\<close>

fun lines_of :: "'t yielded \<Rightarrow> pyval list" where
  "lines_of (Close i st c) = state_block st"
| "lines_of (TailMerge i st c) = state_block st"
| "lines_of (Fallback c) = []"

definition contributing_lines :: "'t yielded list \<Rightarrow> pyval list" where
  "contributing_lines ys = concat (map lines_of ys)"

text \<open>
  The chunked table as the specification describes it: for each item in input order, its
  chunk records in emission order, each keyed by the item's id and its 0-based rank
  among the records of that item.
\<close>

definition rows_of_item :: "chunker \<Rightarrow> 't item \<Rightarrow> 't table" where
  "rows_of_item C item =
     (case item of (item_id, lines, intervals) \<Rightarrow>
        (let records = fst (chunk_by_length C item_id lines intervals) in
         map (\<lambda>rank. ((item_id, rank), records ! rank)) [0 ..< length records]))"

definition chunked_table :: "chunker \<Rightarrow> 't item list \<Rightarrow> 't table" where
  "chunked_table C items = concat (map (rows_of_item C) items)"

text \<open>An item that the length strategy segments without an exception.\<close>

definition segments_cleanly :: "chunker \<Rightarrow> 't item \<Rightarrow> bool" where
  "segments_cleanly C item =
     (case item of (item_id, lines, intervals) \<Rightarrow>
        snd (chunk_by_length C item_id lines intervals) = None)"

text \<open>The word count the loop adds for a line of text.\<close>

fun word_count :: "pyval \<Rightarrow> int" where
  "word_count (PStr s) = int (length (py_split (py_strip s)))"
| "word_count v = 0"

section \<open>Lemmas on comprehensions and strings\<close>


lemma map_raise_Inr_iff:
  "map_raise f xs = Inr ys \<longleftrightarrow> map f xs = map Inr ys"
proof (induction xs arbitrary: ys)
  case Nil
  show ?case by auto
next
  case (Cons x xs)
  show ?case
  proof (cases "f x")
    case (Inl e)
    then show ?thesis by (cases ys) auto
  next
    case (Inr y)
    show ?thesis
    proof (cases "map_raise f xs")
      case (Inl e)
      have "\<And>zs. map f xs \<noteq> map Inr zs" using Cons.IH Inl by simp
      with Inl Inr show ?thesis by (cases ys) auto
    next
      case r: (Inr zs)
      have "map f xs = map Inr zs" using Cons.IH [of zs] r by simp
      with r Inr show ?thesis by (cases ys) (auto simp: inj_map_eq_map)
    qed
  qed
qed


lemma map_raise_all_Inr:
  "\<forall>x\<in>set xs. f x = Inr (g x) \<Longrightarrow> map_raise f xs = Inr (map g xs)"
  by (induction xs) simp_all





lemma map_raise_as_str:
  "map_raise as_str blk = Inr ss \<Longrightarrow> blk = map PStr ss"
proof (induction blk arbitrary: ss)
  case Nil
  then show ?case by simp
next
  case (Cons v vs)
  then show ?case
    by (cases v) (auto split: sum.splits)
qed

lemma is_space_blank: "is_space CHR '' ''"
  by (simp add: is_space_def)

lemma split_acc_blank:
  "split_acc w (xs @ CHR '' '' # ys) = split_acc w xs @ split_acc [] ys"
  by (induction xs arbitrary: w) (simp_all add: is_space_blank)

lemma py_split_join:
  "py_split (join_str '' '' ss) = concat (map py_split ss)"
proof (induction "'' ''" ss rule: join_str.induct)
  case 1
  show ?case by (simp add: py_split_def)
next
  case (2 x)
  show ?case by simp
next
  case (3 x y ys)
  then show ?case
    using split_acc_blank [of "[]" x "join_str '' '' (y # ys)"]
    by (simp add: py_split_def)
qed

lemma map_raise_split_len_PStr:
  "map_raise split_len (map PStr ss) = Inr (map (\<lambda>s. int (length (py_split s))) ss)"
  by (induction ss) simp_all

lemma length_concat_int:
  "int (length (concat xss)) = sum_list (map (\<lambda>xs. int (length xs)) xss)"
  by (induction xss) simp_all

section \<open>Lemmas on the records of a run\<close>


lemma for_loop_yield_packed:
  "y \<in> set (fst (for_loop C vid subs sts ets tot idx rest st)) \<Longrightarrow>
   \<exists>i s e c. (y = Close i s c \<or> y = TailMerge i s c)
              \<and> pack vid (state_block s) subs sts e = Inr c"
proof (induction rest arbitrary: idx st)
  case Nil
  then show ?case by simp
next
  case (Cons l rest)
  show ?case
  proof (cases "strip_split_len l")
    case (Inl e)
    with Cons.prems show ?thesis by simp
  next
    case (Inr n)
    with Cons.prems Cons.IH show ?thesis
      by (auto simp: Let_def split: sum.splits if_splits prod.splits) (metis fst_conv)+
  qed
qed

lemma pack_text_size:
  assumes "pack video_id blk subtitles start_times end_t = Inr c"
  shows "\<exists>ss. blk = map PStr ss \<and> block c = Val (join_str '' '' ss)
            \<and> length_of_block c = Val (int (length (py_split (join_str '' '' ss))))"
proof -
  from assms obtain ss where ss: "map_raise as_str blk = Inr ss"
    by (auto simp: pack_def py_join_def split: sum.splits)
  then have blk: "blk = map PStr ss" by (rule map_raise_as_str)
  have n: "sum_split_len blk = Inr (sum_list (map (\<lambda>s. int (length (py_split s))) ss))"
    by (simp add: sum_split_len_def blk map_raise_split_len_PStr)
  from assms ss n have "block c = Val (join_str '' '' ss)"
    and "length_of_block c = Val (sum_list (map (\<lambda>s. int (length (py_split s))) ss))"
    by (auto simp: pack_def py_join_def split: sum.splits)
  with blk show ?thesis
    by (auto simp: py_split_join length_concat_int comp_def)
qed

lemma pack_videoId:
  "pack video_id blk subtitles start_times end_t = Inr c \<Longrightarrow> videoId c = video_id"
  by (auto simp: pack_def split: sum.splits)

lemma pack_not_degenerate:
  "pack video_id blk subtitles start_times end_t = Inr c \<Longrightarrow> block c \<noteq> NaN"
  by (auto simp: pack_def split: sum.splits)

lemma yields_cases:
  assumes "y \<in> set (fst (chunk_by_length_yields C vid subs ts))"
  shows "y = Fallback (degenerate vid) \<or>
         (\<exists>i s sts e c. (y = Close i s c \<or> y = TailMerge i s c)
                          \<and> pack vid (state_block s) subs sts e = Inr c)"
proof -
  obtain ys r where b: "try_body C vid subs ts = (ys, r)" by (cases "try_body C vid subs ts")
  have inner: "\<exists>i s sts e c. (z = Close i s c \<or> z = TailMerge i s c)
                          \<and> pack vid (state_block s) subs sts e = Inr c" if "z \<in> set ys" for z
  proof -
    from that b have "\<exists>sts ets tot.
      z \<in> set (fst (for_loop C vid subs sts ets tot 0 subs init_state))"
      by (auto simp: try_body_def split: sum.splits prod.splits) (metis fst_conv)
    then obtain sts ets tot where
      "z \<in> set (fst (for_loop C vid subs sts ets tot 0 subs init_state))" by blast
    from for_loop_yield_packed [OF this] show ?thesis by blast
  qed
  from assms b have "y = Fallback (degenerate vid) \<or> y \<in> set ys"
    by (auto simp: chunk_by_length_yields_def split: if_splits)
  with inner show ?thesis by blast
qed

lemma chunk_videoId:
  assumes "c \<in> set (fst (chunk_by_length C vid subs ts))"
  shows "videoId c = vid"
proof -
  from assms obtain y where y: "y \<in> set (fst (chunk_by_length_yields C vid subs ts))"
    and c: "c = record_of y"
    by (auto simp: chunk_by_length_def split: prod.splits)
  from yields_cases [OF y] c show ?thesis
    by (auto simp: degenerate_def dest: pack_videoId)
qed

section \<open>Lemmas on the batch chunker\<close>


lemma map_raise_some_Inl:
  assumes "\<exists>x\<in>set xs. \<exists>e. f x = Inl e"
  shows "\<exists>e. map_raise f xs = Inl e"
proof (cases "map_raise f xs")
  case (Inl e)
  then show ?thesis by blast
next
  case (Inr ys)
  then have "map f xs = map Inr ys" by (simp add: map_raise_Inr_iff)
  then have "\<forall>x\<in>set xs. \<exists>y. f x = Inr y"
    by (metis (no_types, lifting) imageE image_eqI list.set_map)
  with assms show ?thesis by auto
qed

lemma run_strategy_Length:
  "chunk_by C = Length \<Longrightarrow>
   run_strategy C (v, s, t) = consume (chunk_by_length C v s t)"
  by (simp add: run_strategy_def)

lemma run_strategy_Time:
  "chunk_by C = Time \<Longrightarrow> run_strategy C item = Inl NotImplementedError"
  by (cases item) (simp add: run_strategy_def chunk_by_time_def)

lemma run_strategy_clean:
  "chunk_by C = Length \<Longrightarrow> segments_cleanly C item \<Longrightarrow>
   run_strategy C item = Inr (fst (case item of (v, s, t) \<Rightarrow> chunk_by_length C v s t))"
  by (cases item) (simp add: run_strategy_def segments_cleanly_def consume_def)

lemma run_strategy_unclean:
  "chunk_by C = Length \<Longrightarrow> \<not> segments_cleanly C item \<Longrightarrow> \<exists>e. run_strategy C item = Inl e"
  by (cases item) (auto simp: run_strategy_def segments_cleanly_def consume_def)

lemma keyed_frame:
  "map (\<lambda>(block_number, row). ((videoId row, block_number), row))
     (make_df (fst (chunk_by_length C v s t))) = rows_of_item C (v, s, t)"
proof -
  let ?cs = "fst (chunk_by_length C v s t)"
  have "videoId (?cs ! k) = v" if "k < length ?cs" for k
    using that chunk_videoId [of "?cs ! k" C v s t] by simp
  then show ?thesis
    by (auto simp: make_df_def rows_of_item_def Let_def intro!: nth_equalityI)
qed

lemma get_chunks_clean:
  assumes L: "chunk_by C = Length" and ne: "scrapped_df \<noteq> []"
    and clean: "\<forall>item\<in>set scrapped_df. segments_cleanly C item"
    and rows: "chunked_table C scrapped_df \<noteq> []"
  shows "get_chunks C scrapped_df = Inr (chunked_table C scrapped_df)"
proof -
  let ?g = "\<lambda>item. make_df (fst (case item of (v, s, t) \<Rightarrow> chunk_by_length C v s t))"
  let ?key = "\<lambda>(block_number, row). ((videoId row, block_number), row)"
  have "\<forall>item\<in>set scrapped_df. map_sum id make_df (run_strategy C item) = Inr (?g item)"
    using L clean by (simp add: run_strategy_clean)
  then have frames: "map_raise (\<lambda>item. map_sum id make_df (run_strategy C item)) scrapped_df
                     = Inr (map ?g scrapped_df)"
    by (rule map_raise_all_Inr)
  have item: "map ?key (?g item) = rows_of_item C item" for item
    by (cases item) (simp add: keyed_frame)
  have tbl: "map ?key (concat (map ?g scrapped_df)) = chunked_table C scrapped_df"
    by (simp add: chunked_table_def map_concat comp_def item)
  with rows have "concat (map ?g scrapped_df) \<noteq> []"
    by (metis list.map_disc_iff)
  with frames ne tbl show ?thesis
    by (simp add: get_chunks_def pd_concat_def index_df_def)
qed

lemma get_chunks_Time:
  assumes "chunk_by C = Time"
  shows "get_chunks C scrapped_df =
         Inl (if scrapped_df = [] then ValueError else NotImplementedError)"
  using assms
  by (cases scrapped_df) (simp_all add: get_chunks_def pd_concat_def run_strategy_Time)

lemma get_chunks_unclean:
  assumes L: "chunk_by C = Length" and bad: "\<exists>item\<in>set scrapped_df. \<not> segments_cleanly C item"
  shows "\<exists>e. get_chunks C scrapped_df = Inl e"
proof -
  from bad L have "\<exists>item\<in>set scrapped_df. \<exists>e. map_sum id make_df (run_strategy C item) = Inl e"
    by (metis run_strategy_unclean map_sum.simps(1))
  from map_raise_some_Inl [OF this] show ?thesis
    by (auto simp: get_chunks_def)
qed

lemma get_chunks_no_rows:
  assumes L: "chunk_by C = Length"
    and clean: "\<forall>item\<in>set scrapped_df. segments_cleanly C item"
    and rows: "chunked_table C scrapped_df = []"
  shows "\<exists>e. get_chunks C scrapped_df = Inl e"
proof -
  let ?g = "\<lambda>item. make_df (fst (case item of (v, s, t) \<Rightarrow> chunk_by_length C v s t))"
  let ?key = "\<lambda>(block_number, row). ((videoId row, block_number), row)"
  have "\<forall>item\<in>set scrapped_df. map_sum id make_df (run_strategy C item) = Inr (?g item)"
    using L clean by (simp add: run_strategy_clean)
  then have frames: "map_raise (\<lambda>item. map_sum id make_df (run_strategy C item)) scrapped_df
                     = Inr (map ?g scrapped_df)"
    by (rule map_raise_all_Inr)
  have item: "map ?key (?g item) = rows_of_item C item" for item
    by (cases item) (simp add: keyed_frame)
  have tbl: "map ?key (concat (map ?g scrapped_df)) = chunked_table C scrapped_df"
    by (simp add: chunked_table_def map_concat comp_def item)
  with rows have "concat (map ?g scrapped_df) = []" by simp
  with frames show ?thesis
    by (simp add: get_chunks_def pd_concat_def index_df_def)
qed

section \<open>Lemmas on the exceptions of a run\<close>

lemma is_text_PStr: "is_text l \<Longrightarrow> \<exists>s. l = PStr s"
  by (cases l) simp_all

lemma text_map_PStr: "\<forall>l\<in>set blk. is_text l \<Longrightarrow> \<exists>ss. blk = map PStr ss"
  by (simp add: ex_map_conv is_text_PStr)

lemma map_raise_as_str_PStr: "map_raise as_str (map PStr ss) = Inr ss"
  by (induction ss) simp_all

lemma py_index_mem: "x \<in> set xs \<Longrightarrow> \<exists>i. py_index x xs = Inr i \<and> i < length xs"
  by (induction xs) auto

lemma pack_text:
  assumes ne: "ss \<noteq> []"
  shows "pack video_id (map PStr ss) subtitles start_times end_t =
         (case py_index (PStr (hd ss)) subtitles of
            Inl e \<Rightarrow> Inl e
          | Inr i \<Rightarrow>
              (case py_get start_times i of
                 Inl e \<Rightarrow> Inl e
               | Inr st \<Rightarrow>
                   (case end_t of
                      Inl e \<Rightarrow> Inl e
                    | Inr et \<Rightarrow>
                        Inr \<lparr>videoId = video_id,
                             block = Val (join_str '' '' ss),
                             length_of_block =
                               Val (sum_list (map (\<lambda>s. int (length (py_split s))) ss)),
                             start_time = Val st, end_time = Val et\<rparr>)))"
proof -
  from ne have g: "py_get (map PStr ss) 0 = Inr (PStr (hd ss))"
    by (cases ss) (simp_all add: py_get_def)
  show ?thesis
    by (simp add: pack_def py_join_def sum_split_len_def g map_raise_as_str_PStr
        map_raise_split_len_PStr)
qed

lemma pack_index_error:
  assumes tx: "\<forall>l\<in>set blk. is_text l" and ne: "blk \<noteq> []"
    and first: "hd blk \<in> set subtitles"
    and e: "end_t = Inl IndexError \<or> (\<exists>et. end_t = Inr et)"
  shows "pack video_id blk subtitles start_times end_t = Inl IndexError
         \<or> (\<exists>c. pack video_id blk subtitles start_times end_t = Inr c)"
proof -
  from tx obtain ss where blk: "blk = map PStr ss" by (blast dest: text_map_PStr)
  with ne have ss: "ss \<noteq> []" by auto
  with blk have hd: "hd blk = PStr (hd ss)" by (simp add: hd_map)
  from py_index_mem [OF first] hd obtain i where "py_index (PStr (hd ss)) subtitles = Inr i"
    by auto
  with e show ?thesis
    by (auto simp: blk pack_text [OF ss] py_get_def split: sum.splits)
qed

lemma pack_succeeds:
  assumes tx: "\<forall>l\<in>set blk. is_text l" and ne: "blk \<noteq> []"
    and first: "hd blk \<in> set subtitles"
    and len: "length subtitles \<le> length start_times"
    and e: "end_t = Inr et"
  shows "\<exists>c. pack video_id blk subtitles start_times end_t = Inr c"
proof -
  from tx obtain ss where blk: "blk = map PStr ss" by (blast dest: text_map_PStr)
  with ne have ss: "ss \<noteq> []" by auto
  with blk have hd: "hd blk = PStr (hd ss)" by (simp add: hd_map)
  from py_index_mem [OF first] hd obtain i where "py_index (PStr (hd ss)) subtitles = Inr i"
    "i < length subtitles" by auto
  with e len show ?thesis
    by (auto simp: blk pack_text [OF ss] py_get_def split: sum.splits)
qed

lemma strip_split_len_text: "is_text l \<Longrightarrow> \<exists>n. strip_split_len l = Inr n"
  by (cases l) simp_all

lemma for_loop_raises_index_error_only:
  assumes "\<forall>l\<in>set subtitles. is_text l"
    and "state_block st = [] \<or> hd (state_block st) \<in> set subtitles"
    and "set (state_block st) \<subseteq> set subtitles"
    and "set rest \<subseteq> set subtitles"
  shows "snd (for_loop C video_id subtitles start_times end_times tot idx rest st)
         \<in> {None, Some IndexError}"
  using assms(2-)
proof (induction rest arbitrary: idx st)
  case Nil
  show ?case by simp
next
  case (Cons l rest)
  from Cons.prems assms(1) have "is_text l" by auto
  then obtain n where n: "strip_split_len l = Inr n" by (blast dest: strip_split_len_text)
  let ?blk = "state_block st @ [l]"
  have hd: "hd ?blk \<in> set subtitles" using Cons.prems by (cases "state_block st") auto
  have sub: "set ?blk \<subseteq> set subtitles" using Cons.prems by auto
  have tx: "\<forall>x\<in>set ?blk. is_text x" using sub assms(1) by blast
  have e1: "py_get end_times idx = Inl IndexError \<or> (\<exists>et. py_get end_times idx = Inr et)"
    by (simp add: py_get_def)
  have e2: "py_last end_times = Inl IndexError \<or> (\<exists>et. py_last end_times = Inr et)"
    by (simp add: py_last_def)
  have p1: "pack video_id ?blk subtitles start_times (py_get end_times idx) = Inl IndexError
         \<or> (\<exists>c. pack video_id ?blk subtitles start_times (py_get end_times idx) = Inr c)"
    by (rule pack_index_error [OF tx _ hd e1]) simp
  let ?blk' = "?blk @ drop idx subtitles"
  have tx': "\<forall>x\<in>set ?blk'. is_text x"
    using tx assms(1) by (auto dest: in_set_dropD)
  have hd': "hd ?blk' \<in> set subtitles" using hd by (cases "state_block st") simp_all
  have p2: "pack video_id ?blk' subtitles start_times (py_last end_times) = Inl IndexError
         \<or> (\<exists>c. pack video_id ?blk' subtitles start_times (py_last end_times) = Inr c)"
    by (rule pack_index_error [OF tx' _ hd' e2]) simp
  have ih1: "snd (for_loop C video_id subtitles start_times end_times tot (Suc idx) rest
               \<lparr>state_block = [], state_length_of_block = 0, covered_length = k\<rparr>)
             \<in> {None, Some IndexError}" for k
    using Cons.prems by (intro Cons.IH) auto
  have ih2: "snd (for_loop C video_id subtitles start_times end_times tot (Suc idx) rest
               \<lparr>state_block = ?blk, state_length_of_block = k, covered_length = k'\<rparr>)
             \<in> {None, Some IndexError}" for k k'
    using Cons.prems hd sub by (intro Cons.IH) auto
  show ?case
    using p1 p2 ih1 ih2
    by (auto simp: n Let_def split: prod.splits) (metis snd_conv)+
qed

lemma for_loop_completes:
  assumes "\<forall>l\<in>set subtitles. is_text l"
    and "length subtitles \<le> length start_times"
    and "state_block st = [] \<or> hd (state_block st) \<in> set subtitles"
    and "set (state_block st) \<subseteq> set subtitles"
    and "set rest \<subseteq> set subtitles"
    and "idx + length rest \<le> length end_times"
  shows "snd (for_loop C video_id subtitles start_times end_times tot idx rest st) = None"
  using assms(3-)
proof (induction rest arbitrary: idx st)
  case Nil
  show ?case by simp
next
  case (Cons l rest)
  from Cons.prems assms(1) have "is_text l" by auto
  then obtain n where n: "strip_split_len l = Inr n" by (blast dest: strip_split_len_text)
  let ?blk = "state_block st @ [l]"
  have hd: "hd ?blk \<in> set subtitles" using Cons.prems by (cases "state_block st") auto
  have sub: "set ?blk \<subseteq> set subtitles" using Cons.prems by auto
  have tx: "\<forall>x\<in>set ?blk. is_text x" using sub assms(1) by blast
  from Cons.prems have e1: "py_get end_times idx = Inr (end_times ! idx)"
    by (simp add: py_get_def)
  from Cons.prems have e2: "py_last end_times = Inr (last end_times)"
    by (auto simp: py_last_def)
  have p1: "\<exists>c. pack video_id ?blk subtitles start_times (py_get end_times idx) = Inr c"
    by (rule pack_succeeds [OF tx _ hd assms(2) e1]) simp
  let ?blk' = "?blk @ drop idx subtitles"
  have tx': "\<forall>x\<in>set ?blk'. is_text x"
    using tx assms(1) by (auto dest: in_set_dropD)
  have hd': "hd ?blk' \<in> set subtitles" using hd by (cases "state_block st") simp_all
  have p2: "\<exists>c. pack video_id ?blk' subtitles start_times (py_last end_times) = Inr c"
    by (rule pack_succeeds [OF tx' _ hd' assms(2) e2]) simp
  have ih1: "snd (for_loop C video_id subtitles start_times end_times tot (Suc idx) rest
               \<lparr>state_block = [], state_length_of_block = 0, covered_length = k\<rparr>)
             = None" for k
    using Cons.prems by (intro Cons.IH) auto
  have ih2: "snd (for_loop C video_id subtitles start_times end_times tot (Suc idx) rest
               \<lparr>state_block = ?blk, state_length_of_block = k, covered_length = k'\<rparr>)
             = None" for k k'
    using Cons.prems hd sub by (intro Cons.IH) auto
  show ?case
    using p1 p2 ih1 ih2
    by (auto simp: n Let_def split: prod.splits) (metis snd_conv)+
qed

lemma total_length_text:
  "\<forall>l\<in>set subtitles. is_text l \<Longrightarrow> \<exists>ns. map_raise strip_split_len subtitles = Inr ns"
proof (induction subtitles)
  case Nil
  show ?case by simp
next
  case (Cons l ls)
  then obtain n ns where "strip_split_len l = Inr n" "map_raise strip_split_len ls = Inr ns"
    by (auto dest: strip_split_len_text)
  then show ?case by simp
qed

lemma run_of_text:
  assumes tx: "\<forall>l\<in>set subtitles. is_text l" and ne: "timestamps \<noteq> []"
  shows "\<exists>tot. chunk_by_length_yields C video_id subtitles timestamps =
           for_loop C video_id subtitles (map fst timestamps) (map snd timestamps) tot 0
             subtitles init_state
         \<and> snd (for_loop C video_id subtitles (map fst timestamps) (map snd timestamps) tot 0
             subtitles init_state) \<in> {None, Some IndexError}"
proof -
  from total_length_text [OF tx] obtain ns where
    ns: "map_raise strip_split_len subtitles = Inr ns" by blast
  let ?r = "for_loop C video_id subtitles (map fst timestamps) (map snd timestamps)
              (sum_list ns) 0 subtitles init_state"
  have b: "try_body C video_id subtitles timestamps = ?r"
    using ne by (simp add: try_body_def ns unzip_timestamps_def)
  have e: "snd ?r \<in> {None, Some IndexError}"
    by (rule for_loop_raises_index_error_only [OF tx]) (simp_all add: init_state_def)
  then have "chunk_by_length_yields C video_id subtitles timestamps = ?r"
    by (cases ?r) (auto simp: chunk_by_length_yields_def b)
  with e show ?thesis by blast
qed

lemma snd_chunk_by_length:
  "snd (chunk_by_length C video_id subtitles timestamps)
   = snd (chunk_by_length_yields C video_id subtitles timestamps)"
  by (simp add: chunk_by_length_def split: prod.splits)

section \<open>Lemmas on the lines of a run\<close>

text \<open>
  The block of a tail-merge record at index \<open>i\<close> holds line \<open>i\<close> twice, followed by the
  lines after it. When \<^verbatim>\<open>min_tolerable_threshold\<close> is not negative, a run that ends
  without an exception leaves out no line: at the last line nothing remains, so one of
  the two branches fires there.
\<close>

lemma drop_eq_Cons:
  assumes "l # rest = drop idx xs"
  shows "idx < length xs \<and> l = xs ! idx \<and> rest = drop (Suc idx) xs"
proof -
  from assms have lt: "idx < length xs" by (cases "idx < length xs") auto
  then have "drop idx xs = xs ! idx # drop (Suc idx) xs" by (simp add: Cons_nth_drop_Suc)
  with assms lt show ?thesis by simp
qed

lemma for_loop_tail_merge_shape:
  assumes "rest = drop idx subtitles"
    and "TailMerge i s c \<in> set (fst (for_loop C video_id subtitles start_times end_times tot
                                      idx rest st))"
  shows "idx \<le> i \<and> i < length subtitles
         \<and> (\<exists>b. state_block s = b @ [subtitles ! i, subtitles ! i] @ drop (Suc i) subtitles)"
  using assms
proof (induction rest arbitrary: idx st)
  case Nil
  then show ?case by simp
next
  case (Cons l rest)
  from drop_eq_Cons [OF Cons.prems(1)] have lt: "idx < length subtitles"
    and l: "l = subtitles ! idx" and rest: "rest = drop (Suc idx) subtitles" by simp_all
  have d: "drop idx subtitles = subtitles ! idx # drop (Suc idx) subtitles"
    using lt by (simp add: Cons_nth_drop_Suc)
  show ?case
  proof (cases "strip_split_len l")
    case (Inl e)
    with Cons.prems(2) show ?thesis by simp
  next
    case (Inr n)
    let ?blk = "state_block st @ [l]"
    let ?len = "state_length_of_block st + n"
    let ?cov = "covered_length st + n"
    have ih: "Suc idx \<le> i \<and> i < length subtitles
         \<and> (\<exists>b. state_block s = b @ [subtitles ! i, subtitles ! i] @ drop (Suc i) subtitles)"
      if "TailMerge i s c \<in> set (fst (for_loop C video_id subtitles start_times end_times tot
                                      (Suc idx) rest st'))" for st'
      using Cons.IH [OF rest that] .
    consider (close) "?len \<ge> expected_threshold C \<and> tot - ?cov \<ge> min_tolerable_threshold C"
      | (tail) "\<not> (?len \<ge> expected_threshold C \<and> tot - ?cov \<ge> min_tolerable_threshold C)"
          "tot - ?cov \<le> min_tolerable_threshold C"
      | (continue) "\<not> (?len \<ge> expected_threshold C \<and> tot - ?cov \<ge> min_tolerable_threshold C)"
          "\<not> tot - ?cov \<le> min_tolerable_threshold C"
      by blast
    then show ?thesis
    proof cases
      case close
      with Cons.prems(2) Inr have
        "TailMerge i s c \<in> set (fst (for_loop C video_id subtitles start_times end_times tot
           (Suc idx) rest
           \<lparr>state_block = [], state_length_of_block = 0, covered_length = ?cov\<rparr>))"
        by (auto simp: Let_def split: sum.splits prod.splits)
      from ih [OF this] show ?thesis by simp
    next
      case tail
      with Cons.prems(2) Inr have "i = idx" "state_block s = ?blk @ drop idx subtitles"
        by (auto simp: Let_def split: sum.splits)
      with lt l d show ?thesis by auto
    next
      case continue
      with Cons.prems(2) Inr have
        "TailMerge i s c \<in> set (fst (for_loop C video_id subtitles start_times end_times tot
           (Suc idx) rest
           \<lparr>state_block = ?blk, state_length_of_block = ?len, covered_length = ?cov\<rparr>))"
        by (auto simp: Let_def)
      from ih [OF this] show ?thesis by simp
    qed
  qed
qed

lemma strip_split_len_word_count:
  "is_text l \<Longrightarrow> strip_split_len l = Inr (word_count l)"
  by (cases l) simp_all

lemma for_loop_drops_nothing:
  assumes "\<forall>l\<in>set subtitles. is_text l"
    and "0 \<le> min_tolerable_threshold C"
    and "rest = drop idx subtitles"
    and "rest \<noteq> []"
    and "tot - covered_length st = sum_list (map word_count rest)"
    and "for_loop C video_id subtitles start_times end_times tot idx rest st = (ys, None)"
  shows "set (state_block st) \<union> set rest \<subseteq> set (contributing_lines ys)"
  using assms(3-)
proof (induction rest arbitrary: idx st ys)
  case Nil
  then show ?case by simp
next
  case (Cons l rest)
  from drop_eq_Cons [OF Cons.prems(1)] have lt: "idx < length subtitles"
    and l: "l = subtitles ! idx" and rest: "rest = drop (Suc idx) subtitles" by simp_all
  have d: "drop idx subtitles = l # rest"
    using Cons.prems(1) by simp
  from lt l assms(1) have "is_text l" by simp
  then have n: "strip_split_len l = Inr (word_count l)" by (rule strip_split_len_word_count)
  let ?blk = "state_block st @ [l]"
  let ?len = "state_length_of_block st + word_count l"
  let ?cov = "covered_length st + word_count l"
  from Cons.prems(3) have rem: "tot - ?cov = sum_list (map word_count rest)" by simp
  consider (close) "?len \<ge> expected_threshold C \<and> tot - ?cov \<ge> min_tolerable_threshold C"
    | (tail) "\<not> (?len \<ge> expected_threshold C \<and> tot - ?cov \<ge> min_tolerable_threshold C)"
        "tot - ?cov \<le> min_tolerable_threshold C"
    | (continue) "\<not> (?len \<ge> expected_threshold C \<and> tot - ?cov \<ge> min_tolerable_threshold C)"
        "\<not> tot - ?cov \<le> min_tolerable_threshold C"
    by blast
  then show ?case
  proof cases
    case close
    with Cons.prems(4) n obtain c zs where
      p: "pack video_id ?blk subtitles start_times (py_get end_times idx) = Inr c"
      and r: "for_loop C video_id subtitles start_times end_times tot (Suc idx) rest
               \<lparr>state_block = [], state_length_of_block = 0, covered_length = ?cov\<rparr> = (zs, None)"
      and ys: "ys = Close idx
                 \<lparr>state_block = ?blk, state_length_of_block = ?len, covered_length = ?cov\<rparr> c # zs"
      by (auto simp: Let_def split: sum.splits prod.splits)
    have "set rest \<subseteq> set (contributing_lines zs)"
    proof (cases "rest = []")
      case True
      then show ?thesis by simp
    next
      case False
      from Cons.IH [OF rest False _ r] rem show ?thesis by simp
    qed
    with ys show ?thesis by (auto simp: contributing_lines_def)
  next
    case tail
    with Cons.prems(4) n obtain c where
      ys: "ys = [TailMerge idx
                 \<lparr>state_block = ?blk @ drop idx subtitles, state_length_of_block = ?len,
                  covered_length = ?cov\<rparr> c]"
      by (auto simp: Let_def split: sum.splits)
    then show ?thesis by (auto simp: contributing_lines_def d)
  next
    case continue
    with Cons.prems(4) n have
      r: "for_loop C video_id subtitles start_times end_times tot (Suc idx) rest
               \<lparr>state_block = ?blk, state_length_of_block = ?len, covered_length = ?cov\<rparr>
          = (ys, None)"
      by (simp add: Let_def)
    have ne: "rest \<noteq> []"
    proof
      assume "rest = []"
      with rem have "tot - ?cov = 0" by simp
      with continue(2) assms(2) show False by simp
    qed
    from Cons.IH [OF rest ne _ r] rem show ?thesis by simp
  qed
qed

lemma sum_list_word_count:
  "\<forall>l\<in>set ls. is_text l \<Longrightarrow> map_raise strip_split_len ls = Inr ns \<Longrightarrow>
   sum_list ns = sum_list (map word_count ls)"
proof (induction ls arbitrary: ns)
  case Nil
  then show ?case by simp
next
  case (Cons l ls)
  then show ?case
    by (auto simp: strip_split_len_word_count split: sum.splits)
qed

lemma no_line_dropped_nonnegative:
  assumes tx: "\<forall>l\<in>set subtitles. is_text l"
    and nn: "0 \<le> min_tolerable_threshold C"
    and run: "chunk_by_length_yields C video_id subtitles timestamps = (ys, None)"
  shows "set subtitles \<subseteq> set (contributing_lines ys)"
proof (cases "subtitles = []")
  case True
  then show ?thesis by simp
next
  case False
  from total_length_text [OF tx] obtain ns where
    ns: "map_raise strip_split_len subtitles = Inr ns" by blast
  from run ns have ne: "timestamps \<noteq> []"
    by (auto simp: chunk_by_length_yields_def try_body_def unzip_timestamps_def
        split: if_splits)
  let ?r = "for_loop C video_id subtitles (map fst timestamps) (map snd timestamps)
              (sum_list ns) 0 subtitles init_state"
  have b: "try_body C video_id subtitles timestamps = ?r"
    using ne by (simp add: try_body_def ns unzip_timestamps_def)
  have "snd ?r \<in> {None, Some IndexError}"
    by (rule for_loop_raises_index_error_only [OF tx]) (simp_all add: init_state_def)
  then have "chunk_by_length_yields C video_id subtitles timestamps = ?r"
    by (cases ?r) (auto simp: chunk_by_length_yields_def b)
  with run have r: "?r = (ys, None)" by simp
  have "set (state_block init_state) \<union> set subtitles \<subseteq> set (contributing_lines ys)"
    by (rule for_loop_drops_nothing [OF tx nn _ False _ r])
       (simp_all add: init_state_def sum_list_word_count [OF tx ns])
  then show ?thesis by simp
qed

section \<open>The claims\<close>

text \<open>
  C1. The tail-merge branch is claimed to append exactly the lines not yet visited,
  positions \<open>i + 1\<close> to the end. The slice \<^verbatim>\<open>subtitles[idx:]\<close> starts at the current
  line, which the loop has appended already: with thresholds 10 and 5 and the two lines
  a, b the branch fires at index 0, after one covered word, and the record holds the
  lines a, a, b, three words for an item of two. The end time is that of the last line
  and the loop stops, as claimed.
\<close>

theorem tail_merge_repeats_current_line:
  "chunk_by_length_yields
     \<lparr>chunk_by = Length, expected_threshold = 10, min_tolerable_threshold = 5\<rparr>
     ''v'' [PStr ''a'', PStr ''b''] [(0::int, 1), (1, 2)]
   = ([TailMerge 0
        \<lparr>state_block = [PStr ''a'', PStr ''a'', PStr ''b''], state_length_of_block = 1,
         covered_length = 1\<rparr>
        \<lparr>videoId = ''v'', block = Val ''a a b'', length_of_block = Val 3,
         start_time = Val 0, end_time = Val 2\<rparr>], None)"
  by code_simp

text \<open>
  C2. Line conservation up to a dropped trailing block. With thresholds 2 and 1 and the
  lines a, b, c, d nothing is dropped, yet the lines of the two records are
  a, b, c, c, d: the tail-merge repeats line c. A trailing block is dropped only when
  neither branch fires at the last line, where nothing remains, which takes a negative
  \<^verbatim>\<open>min_tolerable_threshold\<close>: with thresholds 10 and -1 the single line a yields
  no record at all.
\<close>

theorem line_conservation_fails_at_tail_merge:
  "contributing_lines (fst (chunk_by_length_yields
     \<lparr>chunk_by = Length, expected_threshold = 2, min_tolerable_threshold = 1\<rparr>
     ''v'' [PStr ''a'', PStr ''b'', PStr ''c'', PStr ''d'']
     [(0::int, 1), (1, 2), (2, 3), (3, 4)]))
   = [PStr ''a'', PStr ''b'', PStr ''c'', PStr ''c'', PStr ''d'']
   \<and> chunk_by_length_yields
     \<lparr>chunk_by = Length, expected_threshold = 10, min_tolerable_threshold = - 1\<rparr>
     ''v'' [PStr ''a''] [(0::int, 1)]
   = ([], None)"
  by code_simp



text \<open>
  C4. The worked example: thresholds 10 and 5, ten lines of one word each on the intervals
  (0,1), ..., (9,10). The run yields one record, from the tail-merge branch at index 4
  with \<^verbatim>\<open>covered_length\<close> 5 of a total of 10, starting at 0 and ending at 10, as
  expected. The record does not cover the ten lines, though: its block is the lines of
  positions 0 to 4 followed by those of positions 4 to 9, eleven lines, with the text
  w0 w1 w2 w3 w4 w4 w5 w6 w7 w8 w9 and the size 11 for an item of ten words, since the
  slice of the tail-merge starts at the current line (see C1).
\<close>

theorem worked_example_repeats_fifth_line:
  "chunk_by_length_yields
     \<lparr>chunk_by = Length, expected_threshold = 10, min_tolerable_threshold = 5\<rparr>
     ''v''
     [PStr ''w0'', PStr ''w1'', PStr ''w2'', PStr ''w3'', PStr ''w4'', PStr ''w5'',
      PStr ''w6'', PStr ''w7'', PStr ''w8'', PStr ''w9'']
     [(0::int, 1), (1, 2), (2, 3), (3, 4), (4, 5), (5, 6), (6, 7), (7, 8), (8, 9), (9, 10)]
   = ([TailMerge 4
        \<lparr>state_block =
           [PStr ''w0'', PStr ''w1'', PStr ''w2'', PStr ''w3'', PStr ''w4'', PStr ''w4'',
            PStr ''w5'', PStr ''w6'', PStr ''w7'', PStr ''w8'', PStr ''w9''],
         state_length_of_block = 5, covered_length = 5\<rparr>
        \<lparr>videoId = ''v'', block = Val ''w0 w1 w2 w3 w4 w4 w5 w6 w7 w8 w9'',
         length_of_block = Val 11, start_time = Val 0, end_time = Val 10\<rparr>], None)"
  by code_simp

text \<open>
  C5. The size of a record that is not degenerate is the number of words its text splits
  into, the text being the lines of the block joined by single spaces.
\<close>

theorem size_is_word_count_of_text:
  assumes "y \<in> set (fst (chunk_by_length_yields C video_id subtitles timestamps))"
    and "record_of y \<noteq> degenerate video_id"
  shows "\<exists>ss. lines_of y = map PStr ss
            \<and> block (record_of y) = Val (join_str '' '' ss)
            \<and> length_of_block (record_of y) = Val (int (length (py_split (join_str '' '' ss))))"
proof -
  from yields_cases [OF assms(1)] assms(2)
  obtain i s sts e c where y: "y = Close i s c \<or> y = TailMerge i s c"
    and p: "pack video_id (state_block s) subtitles sts e = Inr c"
    by auto
  from pack_text_size [OF p] y show ?thesis by auto
qed

theorem size_is_word_count_of_text_witness:
  "Close 1
     \<lparr>state_block = [PStr ''a  b'', PStr '' c ''], state_length_of_block = 3,
      covered_length = 3\<rparr>
     \<lparr>videoId = ''v'', block = Val ''a  b  c '', length_of_block = Val 3,
      start_time = Val 0, end_time = Val 2\<rparr>
   \<in> set (fst (chunk_by_length_yields
        \<lparr>chunk_by = Length, expected_threshold = 3, min_tolerable_threshold = 1\<rparr>
        ''v'' [PStr ''a  b'', PStr '' c '', PStr ''d''] [(0::int, 1), (1, 2), (2, 3)]))
   \<and> (\<exists>ss. [PStr ''a  b'', PStr '' c ''] = map PStr ss
          \<and> Val ''a  b  c '' = Val (join_str '' '' ss)
          \<and> Val 3 = Val (int (length (py_split (join_str '' '' ss)))))"
proof -
  let ?y = "Close 1
     \<lparr>state_block = [PStr ''a  b'', PStr '' c ''], state_length_of_block = 3,
      covered_length = 3\<rparr>
     \<lparr>videoId = ''v'', block = Val ''a  b  c '', length_of_block = Val 3,
      start_time = Val (0::int), end_time = Val 2\<rparr>"
  have m: "?y \<in> set (fst (chunk_by_length_yields
        \<lparr>chunk_by = Length, expected_threshold = 3, min_tolerable_threshold = 1\<rparr>
        ''v'' [PStr ''a  b'', PStr '' c '', PStr ''d''] [(0::int, 1), (1, 2), (2, 3)]))"
    by code_simp
  have d: "record_of ?y \<noteq> degenerate ''v''" by (simp add: degenerate_def)
  from size_is_word_count_of_text [OF m d] m show ?thesis by simp
qed

text \<open>
  C6. Temporal ordering. The start time of a record is read at the first position of
  \<^verbatim>\<open>subtitles\<close> that holds a line equal to the block's first line. With thresholds 2
  and 0 and the lines a, b, a, b on the intervals (0,1), (1,2), (2,3), (3,4) the second
  record, whose lines are those of positions 2 and 3, gets the start time 0 of position
  0, before the end time 2 of the first record.
\<close>

theorem start_time_lookup_overlaps:
  "chunk_by_length
     \<lparr>chunk_by = Length, expected_threshold = 2, min_tolerable_threshold = 0\<rparr>
     ''v'' [PStr ''a'', PStr ''b'', PStr ''a'', PStr ''b'']
     [(0::int, 1), (1, 2), (2, 3), (3, 4)]
   = ([\<lparr>videoId = ''v'', block = Val ''a b'', length_of_block = Val 2,
        start_time = Val 0, end_time = Val 2\<rparr>,
       \<lparr>videoId = ''v'', block = Val ''a b'', length_of_block = Val 2,
        start_time = Val 0, end_time = Val 4\<rparr>], None)"
  by code_simp

text \<open>
  C7. The segmenter does not compare the lengths of lines and intervals. For an
  item whose lines are all text: with more intervals than lines it completes without an
  exception; with fewer intervals, but at least one, it completes or stops with an
  IndexError; with no interval it raises ValueError at the unpacking, before the loop.
\<close>

theorem length_mismatch_outcome:
  assumes "\<forall>l\<in>set subtitles. is_text l"
    and "length subtitles \<noteq> length timestamps"
  shows "(length subtitles < length timestamps \<longrightarrow>
            snd (chunk_by_length C video_id subtitles timestamps) = None)
       \<and> (timestamps \<noteq> [] \<longrightarrow> length timestamps < length subtitles \<longrightarrow>
            snd (chunk_by_length C video_id subtitles timestamps) \<in> {None, Some IndexError})
       \<and> (timestamps = [] \<longrightarrow>
            chunk_by_length C video_id subtitles timestamps = ([], Some ValueError))"
proof (intro conjI impI)
  assume less: "length subtitles < length timestamps"
  then have ne: "timestamps \<noteq> []" by auto
  from run_of_text [OF assms(1) ne, of C video_id] obtain tot where
    r: "chunk_by_length_yields C video_id subtitles timestamps =
           for_loop C video_id subtitles (map fst timestamps) (map snd timestamps) tot 0
             subtitles init_state" by blast
  have "snd (for_loop C video_id subtitles (map fst timestamps) (map snd timestamps) tot 0
             subtitles init_state) = None"
    using less by (intro for_loop_completes [OF assms(1)]) (simp_all add: init_state_def)
  with r show "snd (chunk_by_length C video_id subtitles timestamps) = None"
    by (simp add: snd_chunk_by_length)
next
  assume ne: "timestamps \<noteq> []"
  from run_of_text [OF assms(1) ne, of C video_id]
  show "snd (chunk_by_length C video_id subtitles timestamps) \<in> {None, Some IndexError}"
    by (auto simp: snd_chunk_by_length)
next
  assume e: "timestamps = []"
  from total_length_text [OF assms(1)] obtain ns where
    "map_raise strip_split_len subtitles = Inr ns" by blast
  with e show "chunk_by_length C video_id subtitles timestamps = ([], Some ValueError)"
    by (simp add: chunk_by_length_def chunk_by_length_yields_def try_body_def
        unzip_timestamps_def)
qed

theorem length_mismatch_outcome_witness:
  "list_all is_text [PStr ''a'', PStr ''b'']
   \<and> length [PStr ''a'', PStr ''b''] < length [(0::int, 1), (1, 2), (2, 3)]
   \<and> snd (chunk_by_length
        \<lparr>chunk_by = Length, expected_threshold = 1, min_tolerable_threshold = 0\<rparr>
        ''v'' [PStr ''a'', PStr ''b''] [(0::int, 1), (1, 2), (2, 3)]) = None
   \<and> [(0::int, 1)] \<noteq> [] \<and> length [(0::int, 1)] < length [PStr ''a'', PStr ''b'']
   \<and> snd (chunk_by_length
        \<lparr>chunk_by = Length, expected_threshold = 1, min_tolerable_threshold = 0\<rparr>
        ''v'' [PStr ''a'', PStr ''b''] [(0::int, 1)]) \<in> {None, Some IndexError}
   \<and> chunk_by_length
        \<lparr>chunk_by = Length, expected_threshold = 1, min_tolerable_threshold = 0\<rparr>
        ''v'' [PStr ''a'', PStr ''b''] ([] :: (int \<times> int) list) = ([], Some ValueError)"
proof -
  let ?C = "\<lparr>chunk_by = Length, expected_threshold = 1, min_tolerable_threshold = 0\<rparr>"
  have tx: "\<forall>l\<in>set [PStr ''a'', PStr ''b'']. is_text l" by simp
  have d1: "length [PStr ''a'', PStr ''b''] \<noteq> length [(0::int, 1), (1, 2), (2, 3)]" by simp
  have d2: "length [PStr ''a'', PStr ''b''] \<noteq> length [(0::int, 1)]" by simp
  have d3: "length [PStr ''a'', PStr ''b''] \<noteq> length ([] :: (int \<times> int) list)" by simp
  from length_mismatch_outcome [OF tx d1, of ?C "''v''"]
    length_mismatch_outcome [OF tx d2, of ?C "''v''"]
    length_mismatch_outcome [OF tx d3, of ?C "''v''"]
  show ?thesis by simp
qed

text \<open>
  The claim as stated fails on the code. With the default thresholds, two lines and one
  interval give one record and no exception. With thresholds 1 and 1, three lines and
  one interval give a record for the first line and then an IndexError at the second:
  the mismatch is met in the middle of the run.
\<close>

theorem length_mismatch_not_rejected:
  "length [PStr ''a'', PStr ''b''] \<noteq> length [(0::int, 1)]
   \<and> chunk_by_length
        \<lparr>chunk_by = Length, expected_threshold = 225, min_tolerable_threshold = 150\<rparr>
        ''v'' [PStr ''a'', PStr ''b''] [(0::int, 1)]
     = ([\<lparr>videoId = ''v'', block = Val ''a a b'', length_of_block = Val 3,
          start_time = Val 0, end_time = Val 1\<rparr>], None)
   \<and> length [PStr ''a'', PStr ''b'', PStr ''c''] \<noteq> length [(0::int, 1)]
   \<and> chunk_by_length
        \<lparr>chunk_by = Length, expected_threshold = 1, min_tolerable_threshold = 1\<rparr>
        ''v'' [PStr ''a'', PStr ''b'', PStr ''c''] [(0::int, 1)]
     = ([\<lparr>videoId = ''v'', block = Val ''a'', length_of_block = Val 1,
          start_time = Val 0, end_time = Val 1\<rparr>], Some IndexError)"
  by code_simp

text \<open>
  C8. The batch chunker returns a table exactly when the strategy is the length
  strategy, there is at least one item, every item segments without an exception and
  some item has a record; the table is then the chunked table of the specification:
  the records of each item in emission order, items in input order, each row keyed by
  the item's id and the 0-based rank of the record within its item.
\<close>

theorem batch_table_rows:
  "get_chunks C scrapped_df = Inr tbl \<longleftrightarrow>
     chunk_by C = Length \<and> scrapped_df \<noteq> []
     \<and> (\<forall>item\<in>set scrapped_df. segments_cleanly C item)
     \<and> chunked_table C scrapped_df \<noteq> []
     \<and> tbl = chunked_table C scrapped_df"
proof
  assume r: "get_chunks C scrapped_df = Inr tbl"
  have L: "chunk_by C = Length"
    using r get_chunks_Time [of C scrapped_df] by (cases "chunk_by C") auto
  have ne: "scrapped_df \<noteq> []"
    using r by (auto simp: get_chunks_def pd_concat_def)
  have clean: "\<forall>item\<in>set scrapped_df. segments_cleanly C item"
    using r get_chunks_unclean [OF L] by fastforce
  have rows: "chunked_table C scrapped_df \<noteq> []"
    using r get_chunks_no_rows [OF L clean] by fastforce
  from r get_chunks_clean [OF L ne clean rows]
  show "chunk_by C = Length \<and> scrapped_df \<noteq> []
     \<and> (\<forall>item\<in>set scrapped_df. segments_cleanly C item)
     \<and> chunked_table C scrapped_df \<noteq> []
     \<and> tbl = chunked_table C scrapped_df"
    using L ne clean rows by simp
next
  assume "chunk_by C = Length \<and> scrapped_df \<noteq> []
     \<and> (\<forall>item\<in>set scrapped_df. segments_cleanly C item)
     \<and> chunked_table C scrapped_df \<noteq> []
     \<and> tbl = chunked_table C scrapped_df"
  then show "get_chunks C scrapped_df = Inr tbl"
    by (simp add: get_chunks_clean)
qed

theorem batch_table_rows_witness:
  "get_chunks \<lparr>chunk_by = Length, expected_threshold = 2, min_tolerable_threshold = 2\<rparr>
     [(''v'', [PStr ''a'', PStr ''b'', PStr ''c'', PStr ''d'', PStr ''e''],
         [(0::int, 1), (1, 2), (2, 3), (3, 4), (4, 5)]),
      (''u'', [PNone], [(0, 1)])]
   = Inr [((''v'', 0), \<lparr>videoId = ''v'', block = Val ''a b'', length_of_block = Val 2,
                        start_time = Val 0, end_time = Val 2\<rparr>),
          ((''v'', 1), \<lparr>videoId = ''v'', block = Val ''c c d e'', length_of_block = Val 4,
                        start_time = Val 2, end_time = Val 5\<rparr>),
          ((''u'', 0), degenerate ''u'')]"
proof -
  let ?C = "\<lparr>chunk_by = Length, expected_threshold = 2, min_tolerable_threshold = 2\<rparr>"
  let ?df = "[(''v'', [PStr ''a'', PStr ''b'', PStr ''c'', PStr ''d'', PStr ''e''],
         [(0::int, 1), (1, 2), (2, 3), (3, 4), (4, 5)]),
      (''u'', [PNone], [(0, 1)])]"
  have t: "chunked_table ?C ?df =
     [((''v'', 0), \<lparr>videoId = ''v'', block = Val ''a b'', length_of_block = Val 2,
                        start_time = Val 0, end_time = Val 2\<rparr>),
          ((''v'', 1), \<lparr>videoId = ''v'', block = Val ''c c d e'', length_of_block = Val 4,
                        start_time = Val 2, end_time = Val 5\<rparr>),
          ((''u'', 0), degenerate ''u'')]"
    by code_simp
  have c: "\<forall>item\<in>set ?df. segments_cleanly ?C item" by code_simp
  from batch_table_rows [of ?C ?df "chunked_table ?C ?df"] t c
  show ?thesis by simp
qed

text \<open>
  C9. The time strategy: the call of \<^verbatim>\<open>_chunk_by_time\<close> raises NotImplementedError
  whatever its arguments, so does the dispatch of the batch chunker for any item, and a
  batch under the time strategy never returns a table; with at least one item its
  exception is NotImplementedError.
\<close>

theorem time_strategy_not_implemented:
  "chunk_by_time C video_id subtitles timestamps = Inl NotImplementedError
   \<and> (chunk_by C = Time \<longrightarrow>
        run_strategy C item = Inl NotImplementedError
        \<and> (scrapped_df \<noteq> [] \<longrightarrow> get_chunks C scrapped_df = Inl NotImplementedError)
        \<and> (\<forall>tbl. get_chunks C scrapped_df \<noteq> Inr tbl))"
  by (simp add: chunk_by_time_def run_strategy_Time get_chunks_Time)

theorem time_strategy_not_implemented_witness:
  "chunk_by \<lparr>chunk_by = Time, expected_threshold = 60, min_tolerable_threshold = 45\<rparr> = Time
   \<and> [(''v'', [PStr ''a''], [(0::int, 1)])] \<noteq> []
   \<and> get_chunks \<lparr>chunk_by = Time, expected_threshold = 60, min_tolerable_threshold = 45\<rparr>
       [(''v'', [PStr ''a''], [(0::int, 1)])] = Inl NotImplementedError"
  using time_strategy_not_implemented
    [of "\<lparr>chunk_by = Time, expected_threshold = 60, min_tolerable_threshold = 45\<rparr>"
        "''v''" "[PStr ''a'']" "[(0::int, 1)]" "(''v'', [PStr ''a''], [(0::int, 1)])"
        "[(''v'', [PStr ''a''], [(0::int, 1)])]"]
  by simp

text \<open>
  C10. An item without lines and without intervals: the total is 0, the unpacking of the
  empty interval sequence raises ValueError, which the handler for AttributeError does
  not catch. Nothing is yielded, and the exception leaves the generator and the batch
  chunker.
\<close>

theorem empty_item_raises:
  "chunk_by_length C video_id [] [] = ([], Some ValueError)
   \<and> run_strategy (C\<lparr>chunk_by := Length\<rparr>) (video_id, [], []) = Inl ValueError
   \<and> get_chunks (C\<lparr>chunk_by := Length\<rparr>) ((video_id, [], []) # rest) = Inl ValueError"
  by (simp add: chunk_by_length_def chunk_by_length_yields_def try_body_def
      unzip_timestamps_def run_strategy_def consume_def get_chunks_def)

end
